theory Spec2Isabelle
  imports Main "HOL-Library.Word"
begin

section \<open>GLib threading stubs for a single-threaded build (glib_thread_stubs.c)\<close>

subsection \<open>The C types\<close>

text \<open>
  The typedefs of the source, at the widths of its WebAssembly target (the comment
  above \<open>g_system_thread_new\<close> gives every pointer and \<open>gsize\<close> as an i32).
  Pointers are opaque addresses: the code compares them and never dereferences the ones
  it is handed.
\<close>

type_synonym gpointer = "32 word"
type_synonym gboolean = "32 word"
type_synonym gsize = "32 word"
type_synonym gint64 = "64 word"
type_synonym guint = "32 word"
type_synonym cint = "32 word"

definition TRUE :: gboolean where
  "TRUE = 1"

definition FALSE :: gboolean where
  "FALSE = 0"

definition NULL :: gpointer where
  "NULL = 0"

subsection \<open>Program state\<close>

text \<open>
  \<open>struct PrivateEntry\<close> has the fields key, value and next. The nodes are reachable
  from the static variable \<open>private_list\<close> only, are allocated by \<open>g_private_set\<close>
  alone and are never freed or handed out, so the chain of \<open>next\<close> pointers is the spine
  of a HOL list: the head of the list is the node \<open>private_list\<close> points to, the empty
  list is the null pointer.
\<close>

record PrivateEntry =
  entry_key :: gpointer
  entry_value :: gpointer

text \<open>
  The state the functions of the file can see or change: the static list, the memory of
  the caller (where the cell behind a \<open>GError **\<close> lives), and the number of calls made
  to \<open>malloc\<close> so far. Whether a call to \<open>malloc\<close> returns a node or the null pointer is
  the environment's choice: an allocator tells for the n-th call of a run whether it
  succeeds.
\<close>

record state =
  private_list :: "PrivateEntry list"
  memory :: "gpointer \<Rightarrow> gpointer"
  malloc_calls :: nat

type_synonym allocator = "nat \<Rightarrow> bool"

definition malloc :: "allocator \<Rightarrow> state \<Rightarrow> bool \<times> state" where
  "malloc malloc_ok s = (malloc_ok (malloc_calls s), s\<lparr>malloc_calls := Suc (malloc_calls s)\<rparr>)"

definition malloc_never :: allocator where
  "malloc_never n = False"

definition malloc_always :: allocator where
  "malloc_always n = True"

definition zero_memory :: "gpointer \<Rightarrow> gpointer" where
  "zero_memory a = 0"

text \<open>\<open>static struct PrivateEntry *private_list = NULL;\<close> at program start.\<close>

definition init_state :: "(gpointer \<Rightarrow> gpointer) \<Rightarrow> state" where
  "init_state mem = \<lparr>private_list = [], memory = mem, malloc_calls = 0\<rparr>"

subsection \<open>Mutex, read-write lock, recursive mutex and condition stubs\<close>

definition g_mutex_lock :: "gpointer \<Rightarrow> state \<Rightarrow> state" where
  "g_mutex_lock mutex s = s"

definition g_mutex_unlock :: "gpointer \<Rightarrow> state \<Rightarrow> state" where
  "g_mutex_unlock mutex s = s"

definition g_mutex_trylock :: "gpointer \<Rightarrow> state \<Rightarrow> gboolean \<times> state" where
  "g_mutex_trylock mutex s = (TRUE, s)"

definition g_mutex_init :: "gpointer \<Rightarrow> state \<Rightarrow> state" where
  "g_mutex_init mutex s = s"

definition g_mutex_clear :: "gpointer \<Rightarrow> state \<Rightarrow> state" where
  "g_mutex_clear mutex s = s"

definition g_rw_lock_init :: "gpointer \<Rightarrow> state \<Rightarrow> state" where
  "g_rw_lock_init rw_lock s = s"

definition g_rw_lock_clear :: "gpointer \<Rightarrow> state \<Rightarrow> state" where
  "g_rw_lock_clear rw_lock s = s"

definition g_rw_lock_writer_lock :: "gpointer \<Rightarrow> state \<Rightarrow> state" where
  "g_rw_lock_writer_lock rw_lock s = s"

definition g_rw_lock_writer_trylock :: "gpointer \<Rightarrow> state \<Rightarrow> gboolean \<times> state" where
  "g_rw_lock_writer_trylock rw_lock s = (TRUE, s)"

definition g_rw_lock_writer_unlock :: "gpointer \<Rightarrow> state \<Rightarrow> state" where
  "g_rw_lock_writer_unlock rw_lock s = s"

definition g_rw_lock_reader_lock :: "gpointer \<Rightarrow> state \<Rightarrow> state" where
  "g_rw_lock_reader_lock rw_lock s = s"

definition g_rw_lock_reader_trylock :: "gpointer \<Rightarrow> state \<Rightarrow> gboolean \<times> state" where
  "g_rw_lock_reader_trylock rw_lock s = (TRUE, s)"

definition g_rw_lock_reader_unlock :: "gpointer \<Rightarrow> state \<Rightarrow> state" where
  "g_rw_lock_reader_unlock rw_lock s = s"

definition g_rec_mutex_init :: "gpointer \<Rightarrow> state \<Rightarrow> state" where
  "g_rec_mutex_init rec_mutex s = s"

definition g_rec_mutex_clear :: "gpointer \<Rightarrow> state \<Rightarrow> state" where
  "g_rec_mutex_clear rec_mutex s = s"

definition g_rec_mutex_lock :: "gpointer \<Rightarrow> state \<Rightarrow> state" where
  "g_rec_mutex_lock rec_mutex s = s"

definition g_rec_mutex_trylock :: "gpointer \<Rightarrow> state \<Rightarrow> gboolean \<times> state" where
  "g_rec_mutex_trylock rec_mutex s = (TRUE, s)"

definition g_rec_mutex_unlock :: "gpointer \<Rightarrow> state \<Rightarrow> state" where
  "g_rec_mutex_unlock rec_mutex s = s"

definition g_cond_init :: "gpointer \<Rightarrow> state \<Rightarrow> state" where
  "g_cond_init cond s = s"

definition g_cond_clear :: "gpointer \<Rightarrow> state \<Rightarrow> state" where
  "g_cond_clear cond s = s"

definition g_cond_wait :: "gpointer \<Rightarrow> gpointer \<Rightarrow> state \<Rightarrow> state" where
  "g_cond_wait cond mutex s = s"

definition g_cond_wait_until :: "gpointer \<Rightarrow> gpointer \<Rightarrow> gint64 \<Rightarrow> state \<Rightarrow> gboolean \<times> state" where
  "g_cond_wait_until cond mutex end_time s = (TRUE, s)"

definition g_cond_signal :: "gpointer \<Rightarrow> state \<Rightarrow> state" where
  "g_cond_signal cond s = s"

definition g_cond_broadcast :: "gpointer \<Rightarrow> state \<Rightarrow> state" where
  "g_cond_broadcast cond s = s"

subsection \<open>Private (thread-local) storage\<close>

text \<open>
  The loop of \<open>g_private_get\<close>: walk the list from \<open>entry\<close>, return the value of the first
  node whose key is the one asked for, and the null pointer when the walk reaches the end.
\<close>

fun g_private_get_loop :: "PrivateEntry list \<Rightarrow> gpointer \<Rightarrow> gpointer" where
  "g_private_get_loop [] key = NULL"
| "g_private_get_loop (entry # next) key =
     (if entry_key entry = key then entry_value entry else g_private_get_loop next key)"

definition g_private_get :: "gpointer \<Rightarrow> state \<Rightarrow> gpointer \<times> state" where
  "g_private_get key s = (g_private_get_loop (private_list s) key, s)"

text \<open>
  The loop of \<open>g_private_set\<close>: at the first node whose key is the one given, store the
  value in that node and return (\<open>Some\<close> the list after the store); \<open>None\<close> when the walk
  reaches the end without a match, where the code goes on to allocate.
\<close>

fun g_private_set_loop :: "PrivateEntry list \<Rightarrow> gpointer \<Rightarrow> gpointer \<Rightarrow> PrivateEntry list option" where
  "g_private_set_loop [] key v = None"
| "g_private_set_loop (entry # next) key v =
     (if entry_key entry = key then Some (entry\<lparr>entry_value := v\<rparr> # next)
      else (case g_private_set_loop next key v of
              None \<Rightarrow> None
            | Some next' \<Rightarrow> Some (entry # next')))"

definition g_private_set :: "allocator \<Rightarrow> gpointer \<Rightarrow> gpointer \<Rightarrow> state \<Rightarrow> state" where
  "g_private_set malloc_ok key v s =
     (case g_private_set_loop (private_list s) key v of
        Some l \<Rightarrow> s\<lparr>private_list := l\<rparr>
      | None \<Rightarrow>
          (case malloc malloc_ok s of
             (True, s') \<Rightarrow>
               s'\<lparr>private_list := \<lparr>entry_key = key, entry_value = v\<rparr> # private_list s'\<rparr>
           | (False, s') \<Rightarrow> s'))"

definition g_private_replace :: "allocator \<Rightarrow> gpointer \<Rightarrow> gpointer \<Rightarrow> state \<Rightarrow> state" where
  "g_private_replace malloc_ok key v s = g_private_set malloc_ok key v s"

subsection \<open>System thread stubs\<close>

definition g_system_thread_set_name :: "gpointer \<Rightarrow> state \<Rightarrow> state" where
  "g_system_thread_set_name name s = s"

definition g_system_thread_new ::
  "gpointer \<Rightarrow> gsize \<Rightarrow> gpointer \<Rightarrow> gpointer \<Rightarrow> gpointer \<Rightarrow> gpointer \<Rightarrow> state \<Rightarrow> gpointer \<times> state" where
  "g_system_thread_new proxy stack_size name func data error s = (NULL, s)"

definition g_system_thread_free :: "gpointer \<Rightarrow> state \<Rightarrow> state" where
  "g_system_thread_free thread s = s"

definition g_system_thread_wait :: "gpointer \<Rightarrow> state \<Rightarrow> state" where
  "g_system_thread_wait thread s = s"

definition g_system_thread_exit :: "state \<Rightarrow> state" where
  "g_system_thread_exit s = s"

subsection \<open>Thread pool stubs\<close>

definition g_thread_pool_set_max_unused_threads :: "cint \<Rightarrow> state \<Rightarrow> state" where
  "g_thread_pool_set_max_unused_threads max_threads s = s"

definition g_thread_pool_get_max_unused_threads :: "state \<Rightarrow> guint \<times> state" where
  "g_thread_pool_get_max_unused_threads s = (0, s)"

definition g_thread_pool_get_num_unused_threads :: "state \<Rightarrow> guint \<times> state" where
  "g_thread_pool_get_num_unused_threads s = (0, s)"

definition g_thread_pool_stop_unused_threads :: "state \<Rightarrow> state" where
  "g_thread_pool_stop_unused_threads s = s"

subsection \<open>Call sequences\<close>

text \<open>
  One constructor for each function the file exports, with the arguments of the call,
  and what a call hands back: nothing for a \<open>void\<close> function, else the value returned.
\<close>

datatype call =
    Mutex_lock gpointer
  | Mutex_unlock gpointer
  | Mutex_trylock gpointer
  | Mutex_init gpointer
  | Mutex_clear gpointer
  | Rw_lock_init gpointer
  | Rw_lock_clear gpointer
  | Rw_lock_writer_lock gpointer
  | Rw_lock_writer_trylock gpointer
  | Rw_lock_writer_unlock gpointer
  | Rw_lock_reader_lock gpointer
  | Rw_lock_reader_trylock gpointer
  | Rw_lock_reader_unlock gpointer
  | Rec_mutex_init gpointer
  | Rec_mutex_clear gpointer
  | Rec_mutex_lock gpointer
  | Rec_mutex_trylock gpointer
  | Rec_mutex_unlock gpointer
  | Cond_init gpointer
  | Cond_clear gpointer
  | Cond_wait gpointer gpointer
  | Cond_wait_until gpointer gpointer gint64
  | Cond_signal gpointer
  | Cond_broadcast gpointer
  | Private_get gpointer
  | Private_set gpointer gpointer
  | Private_replace gpointer gpointer
  | System_thread_set_name gpointer
  | System_thread_new gpointer gsize gpointer gpointer gpointer gpointer
  | System_thread_free gpointer
  | System_thread_wait gpointer
  | System_thread_exit
  | Thread_pool_set_max_unused_threads cint
  | Thread_pool_get_max_unused_threads
  | Thread_pool_get_num_unused_threads
  | Thread_pool_stop_unused_threads

datatype ret = Void | Bool gboolean | Pointer gpointer | Uint guint

definition void :: "state \<Rightarrow> ret \<times> state" where
  "void s = (Void, s)"

definition returning :: "('a \<Rightarrow> ret) \<Rightarrow> 'a \<times> state \<Rightarrow> ret \<times> state" where
  "returning f r = (f (fst r), snd r)"

fun exec :: "allocator \<Rightarrow> call \<Rightarrow> state \<Rightarrow> ret \<times> state" where
  "exec m (Mutex_lock p) s = void (g_mutex_lock p s)"
| "exec m (Mutex_unlock p) s = void (g_mutex_unlock p s)"
| "exec m (Mutex_trylock p) s = returning Bool (g_mutex_trylock p s)"
| "exec m (Mutex_init p) s = void (g_mutex_init p s)"
| "exec m (Mutex_clear p) s = void (g_mutex_clear p s)"
| "exec m (Rw_lock_init p) s = void (g_rw_lock_init p s)"
| "exec m (Rw_lock_clear p) s = void (g_rw_lock_clear p s)"
| "exec m (Rw_lock_writer_lock p) s = void (g_rw_lock_writer_lock p s)"
| "exec m (Rw_lock_writer_trylock p) s = returning Bool (g_rw_lock_writer_trylock p s)"
| "exec m (Rw_lock_writer_unlock p) s = void (g_rw_lock_writer_unlock p s)"
| "exec m (Rw_lock_reader_lock p) s = void (g_rw_lock_reader_lock p s)"
| "exec m (Rw_lock_reader_trylock p) s = returning Bool (g_rw_lock_reader_trylock p s)"
| "exec m (Rw_lock_reader_unlock p) s = void (g_rw_lock_reader_unlock p s)"
| "exec m (Rec_mutex_init p) s = void (g_rec_mutex_init p s)"
| "exec m (Rec_mutex_clear p) s = void (g_rec_mutex_clear p s)"
| "exec m (Rec_mutex_lock p) s = void (g_rec_mutex_lock p s)"
| "exec m (Rec_mutex_trylock p) s = returning Bool (g_rec_mutex_trylock p s)"
| "exec m (Rec_mutex_unlock p) s = void (g_rec_mutex_unlock p s)"
| "exec m (Cond_init p) s = void (g_cond_init p s)"
| "exec m (Cond_clear p) s = void (g_cond_clear p s)"
| "exec m (Cond_wait p q) s = void (g_cond_wait p q s)"
| "exec m (Cond_wait_until p q t) s = returning Bool (g_cond_wait_until p q t s)"
| "exec m (Cond_signal p) s = void (g_cond_signal p s)"
| "exec m (Cond_broadcast p) s = void (g_cond_broadcast p s)"
| "exec m (Private_get k) s = returning Pointer (g_private_get k s)"
| "exec m (Private_set k v) s = void (g_private_set m k v s)"
| "exec m (Private_replace k v) s = void (g_private_replace m k v s)"
| "exec m (System_thread_set_name n) s = void (g_system_thread_set_name n s)"
| "exec m (System_thread_new p z n f d e) s = returning Pointer (g_system_thread_new p z n f d e s)"
| "exec m (System_thread_free t) s = void (g_system_thread_free t s)"
| "exec m (System_thread_wait t) s = void (g_system_thread_wait t s)"
| "exec m System_thread_exit s = void (g_system_thread_exit s)"
| "exec m (Thread_pool_set_max_unused_threads n) s = void (g_thread_pool_set_max_unused_threads n s)"
| "exec m Thread_pool_get_max_unused_threads s = returning Uint (g_thread_pool_get_max_unused_threads s)"
| "exec m Thread_pool_get_num_unused_threads s = returning Uint (g_thread_pool_get_num_unused_threads s)"
| "exec m Thread_pool_stop_unused_threads s = void (g_thread_pool_stop_unused_threads s)"

text \<open>The state after a sequence of calls, and the values the calls returned, in order.\<close>

fun run :: "allocator \<Rightarrow> call list \<Rightarrow> state \<Rightarrow> state" where
  "run m [] s = s"
| "run m (c # cs) s = run m cs (snd (exec m c s))"

fun returns :: "allocator \<Rightarrow> call list \<Rightarrow> state \<Rightarrow> ret list" where
  "returns m [] s = []"
| "returns m (c # cs) s = fst (exec m c s) # returns m cs (snd (exec m c s))"

subsection \<open>Vocabulary of the properties\<close>

definition has_key :: "gpointer \<Rightarrow> state \<Rightarrow> bool" where
  "has_key k s = (k \<in> set (map entry_key (private_list s)))"

definition entry_count :: "gpointer \<Rightarrow> state \<Rightarrow> nat" where
  "entry_count k s = count_list (map entry_key (private_list s)) k"

definition keys_unique :: "state \<Rightarrow> bool" where
  "keys_unique s = distinct (map entry_key (private_list s))"

fun sets_key :: "gpointer \<Rightarrow> call \<Rightarrow> bool" where
  "sets_key k (Private_set k' v) = (k' = k)"
| "sets_key k (Private_replace k' v) = (k' = k)"
| "sets_key k c = False"

fun is_trylock :: "call \<Rightarrow> bool" where
  "is_trylock (Mutex_trylock p) = True"
| "is_trylock (Rw_lock_writer_trylock p) = True"
| "is_trylock (Rw_lock_reader_trylock p) = True"
| "is_trylock (Rec_mutex_trylock p) = True"
| "is_trylock (Cond_wait_until p q t) = True"
| "is_trylock c = False"

section \<open>Properties\<close>

subsection \<open>Facts about the two loops\<close>

lemma get_loop_absent:
  "k \<notin> set (map entry_key l) \<Longrightarrow> g_private_get_loop l k = NULL"
  by (induction l) auto

lemma set_loop_None_iff:
  "g_private_set_loop l k v = None \<longleftrightarrow> k \<notin> set (map entry_key l)"
  by (induction l) (auto split: option.splits)

lemma set_loop_keys:
  "g_private_set_loop l k v = Some l' \<Longrightarrow> map entry_key l' = map entry_key l"
  by (induction l arbitrary: l') (auto split: option.splits if_splits)

lemma set_loop_get_same:
  "g_private_set_loop l k v = Some l' \<Longrightarrow> g_private_get_loop l' k = v"
  by (induction l arbitrary: l') (auto split: option.splits if_splits)

subsection \<open>Facts about the operations\<close>

lemmas stub_defs =
  g_mutex_lock_def g_mutex_unlock_def g_mutex_trylock_def g_mutex_init_def g_mutex_clear_def
  g_rw_lock_init_def g_rw_lock_clear_def g_rw_lock_writer_lock_def g_rw_lock_writer_trylock_def
  g_rw_lock_writer_unlock_def g_rw_lock_reader_lock_def g_rw_lock_reader_trylock_def
  g_rw_lock_reader_unlock_def g_rec_mutex_init_def g_rec_mutex_clear_def g_rec_mutex_lock_def
  g_rec_mutex_trylock_def g_rec_mutex_unlock_def g_cond_init_def g_cond_clear_def g_cond_wait_def
  g_cond_wait_until_def g_cond_signal_def g_cond_broadcast_def g_system_thread_set_name_def
  g_system_thread_new_def g_system_thread_free_def g_system_thread_wait_def
  g_system_thread_exit_def g_thread_pool_set_max_unused_threads_def
  g_thread_pool_get_max_unused_threads_def g_thread_pool_get_num_unused_threads_def
  g_thread_pool_stop_unused_threads_def

lemma set_present:
  assumes "has_key k s"
  obtains l where "g_private_set_loop (private_list s) k v = Some l"
    and "g_private_set m k v s = s\<lparr>private_list := l\<rparr>"
proof -
  from assms have "g_private_set_loop (private_list s) k v \<noteq> None"
    by (simp add: set_loop_None_iff has_key_def)
  then obtain l where l: "g_private_set_loop (private_list s) k v = Some l"
    by blast
  then have "g_private_set m k v s = s\<lparr>private_list := l\<rparr>"
    by (simp add: g_private_set_def)
  with l show thesis
    by (rule that)
qed

lemma set_absent:
  assumes "\<not> has_key k s"
  shows "g_private_set m k v s =
    (if m (malloc_calls s)
     then s\<lparr>malloc_calls := Suc (malloc_calls s),
            private_list := \<lparr>entry_key = k, entry_value = v\<rparr> # private_list s\<rparr>
     else s\<lparr>malloc_calls := Suc (malloc_calls s)\<rparr>)"
proof -
  from assms have "g_private_set_loop (private_list s) k v = None"
    by (simp add: set_loop_None_iff has_key_def)
  then show ?thesis
    by (simp add: g_private_set_def malloc_def)
qed

lemma set_keys:
  "map entry_key (private_list (g_private_set m k v s)) =
     (if has_key k s \<or> \<not> m (malloc_calls s) then map entry_key (private_list s)
      else k # map entry_key (private_list s))"
proof (cases "has_key k s")
  case True
  then obtain l where "g_private_set_loop (private_list s) k v = Some l"
    and "g_private_set m k v s = s\<lparr>private_list := l\<rparr>"
    by (rule set_present)
  with True show ?thesis
    by (simp add: set_loop_keys)
next
  case False
  then show ?thesis
    by (simp add: set_absent)
qed

lemma set_malloc_calls:
  "malloc_calls (g_private_set m k v s) =
     (if has_key k s then malloc_calls s else Suc (malloc_calls s))"
proof (cases "has_key k s")
  case True
  then obtain l where "g_private_set m k v s = s\<lparr>private_list := l\<rparr>"
    by (rule set_present)
  with True show ?thesis
    by simp
next
  case False
  then show ?thesis
    by (simp add: set_absent)
qed

lemma get_after_set:
  "fst (g_private_get k (g_private_set m k v s)) =
     (if has_key k s \<or> m (malloc_calls s) then v else NULL)"
proof (cases "has_key k s")
  case True
  then obtain l where "g_private_set_loop (private_list s) k v = Some l"
    and "g_private_set m k v s = s\<lparr>private_list := l\<rparr>"
    by (rule set_present)
  with True show ?thesis
    by (simp add: g_private_get_def set_loop_get_same)
next
  case False
  then have "g_private_get_loop (private_list s) k = NULL"
    by (simp add: get_loop_absent has_key_def)
  with False show ?thesis
    by (simp add: set_absent g_private_get_def)
qed

lemma exec_state:
  "snd (exec m c s) =
     (case c of Private_set k v \<Rightarrow> g_private_set m k v s
      | Private_replace k v \<Rightarrow> g_private_set m k v s
      | _ \<Rightarrow> s)"
  by (cases c)
    (simp_all add: void_def returning_def stub_defs g_private_get_def g_private_replace_def)

lemma exec_keys_unique:
  "keys_unique s \<Longrightarrow> keys_unique (snd (exec m c s))"
  by (simp add: exec_state keys_unique_def set_keys has_key_def split: call.splits)

lemma run_keys_unique:
  "keys_unique s \<Longrightarrow> keys_unique (run m cs s)"
  by (induction cs arbitrary: s) (simp_all add: exec_keys_unique)

lemma exec_absent:
  "\<not> has_key k s \<Longrightarrow> \<not> sets_key k c \<Longrightarrow> \<not> has_key k (snd (exec m c s))"
  by (cases c) (simp_all add: exec_state has_key_def set_keys del: exec.simps)

lemma run_absent:
  "\<not> has_key k s \<Longrightarrow> \<forall>c \<in> set cs. \<not> sets_key k c \<Longrightarrow> \<not> has_key k (run m cs s)"
  by (induction cs arbitrary: s) (simp_all add: exec_absent)

lemma get_absent:
  "\<not> has_key k s \<Longrightarrow> fst (g_private_get k s) = NULL"
  by (simp add: g_private_get_def get_loop_absent has_key_def)

lemma init_no_key:
  "\<not> has_key k (init_state mem)"
  by (simp add: has_key_def init_state_def)

lemma count_distinct:
  "distinct xs \<Longrightarrow> count_list xs x = (if x \<in> set xs then 1 else 0)"
  by (induction xs) auto

lemma has_key_set:
  "has_key k' (g_private_set m k v s) \<longleftrightarrow> has_key k' s \<or> (k' = k \<and> m (malloc_calls s))"
  by (auto simp: has_key_def set_keys)

lemma set_keys_unique:
  "keys_unique s \<Longrightarrow> keys_unique (g_private_set m k v s)"
  by (simp add: keys_unique_def set_keys has_key_def)

lemma entry_count_unique:
  "keys_unique s \<Longrightarrow> entry_count k s = (if has_key k s then 1 else 0)"
  by (simp add: keys_unique_def entry_count_def has_key_def count_distinct)

lemma returns_nth:
  "i < length cs \<Longrightarrow> returns m cs s ! i = fst (exec m (cs ! i) (run m (take i cs) s))"
proof (induction cs arbitrary: s i)
  case Nil
  then show ?case by simp
next
  case (Cons c cs)
  then show ?case
    by (cases i) simp_all
qed

lemma exec_trylock:
  "is_trylock c \<Longrightarrow> fst (exec m c s) = Bool TRUE"
  by (cases c) (simp_all add: returning_def stub_defs)

lemmas eval_defs =
  g_private_set_def g_private_get_def g_private_replace_def malloc_def init_state_def
  malloc_never_def malloc_always_def zero_memory_def has_key_def entry_count_def
  keys_unique_def NULL_def TRUE_def FALSE_def void_def returning_def

lemma returns_append:
  "returns m (cs @ ds) s = returns m cs s @ returns m ds (run m cs s)"
  by (induction cs arbitrary: s) simp_all

subsection \<open>The store\<close>

text \<open>
  C1. \<open>g_private_set\<close> followed at once by \<open>g_private_get\<close> of the same key returns
  the value set, when the key is already in the list or the call to \<open>malloc\<close> succeeds.
\<close>

theorem set_then_get:
  "has_key k s \<or> malloc_ok (malloc_calls s) \<Longrightarrow>
   fst (g_private_get k (g_private_set malloc_ok k v s)) = v"
  by (simp add: get_after_set)

theorem set_then_get_witness:
  "malloc_always (malloc_calls (init_state zero_memory)) \<and>
   fst (g_private_get 1 (g_private_set malloc_always 1 5 (init_state zero_memory))) = 5"
proof -
  have h: "malloc_always (malloc_calls (init_state zero_memory))"
    by (simp add: malloc_always_def)
  from set_then_get [of 1 "init_state zero_memory" malloc_always 5] h show ?thesis
    by simp
qed

text \<open>
  Without that condition the read does not return the value set: in the initial state,
  with \<open>malloc\<close> returning the null pointer, setting key 1 to 5 leaves the list empty and
  key 1 reads as the null pointer.
\<close>

theorem set_then_get_counterexample:
  "fst (g_private_get 1 (g_private_set malloc_never 1 5 (init_state zero_memory))) \<noteq> 5"
  by (simp add: eval_defs)

text \<open>
  C2. Keys are unique within the list: uniqueness holds after every sequence of calls from
  the initial state and is kept by every single call; \<open>g_private_set\<close> on a key that is
  present leaves the sequence of keys as it was (the value is stored in the existing node);
  after two calls of \<open>g_private_set\<close> on one key the list holds at most one node for
  it, and exactly one, read back as the second value, when the key was present before or
  one of the two calls to \<open>malloc\<close> succeeds.
\<close>

theorem keys_stay_unique:
  "keys_unique (run m cs (init_state mem)) \<and>
   (keys_unique s \<longrightarrow> keys_unique (snd (exec m c s))) \<and>
   (has_key k s \<longrightarrow>
      map entry_key (private_list (g_private_set m k v s)) = map entry_key (private_list s)) \<and>
   (keys_unique s \<longrightarrow>
      entry_count k (g_private_set m k v2 (g_private_set m k v1 s)) \<le> 1) \<and>
   (keys_unique s \<and> (has_key k s \<or> m (malloc_calls s) \<or> m (Suc (malloc_calls s))) \<longrightarrow>
      entry_count k (g_private_set m k v2 (g_private_set m k v1 s)) = 1 \<and>
      fst (g_private_get k (g_private_set m k v2 (g_private_set m k v1 s))) = v2)"
proof -
  let ?s1 = "g_private_set m k v1 s"
  let ?s2 = "g_private_set m k v2 ?s1"
  have "keys_unique (init_state mem)"
    by (simp add: keys_unique_def init_state_def)
  then have reach: "keys_unique (run m cs (init_state mem))"
    by (rule run_keys_unique)
  have step: "keys_unique s \<longrightarrow> keys_unique (snd (exec m c s))"
    by (simp add: exec_keys_unique)
  have inplace: "has_key k s \<longrightarrow>
      map entry_key (private_list (g_private_set m k v s)) = map entry_key (private_list s)"
    by (simp add: set_keys)
  have uniq2: "keys_unique ?s2" if "keys_unique s"
    using that by (simp add: set_keys_unique)
  have most: "keys_unique s \<longrightarrow> entry_count k ?s2 \<le> 1"
    using uniq2 by (simp add: entry_count_unique)
  have present: "has_key k ?s1 \<or> m (malloc_calls ?s1)"
    if "has_key k s \<or> m (malloc_calls s) \<or> m (Suc (malloc_calls s))"
    using that by (auto simp: has_key_set set_malloc_calls)
  have one: "entry_count k ?s2 = 1 \<and> fst (g_private_get k ?s2) = v2"
    if "keys_unique s" and "has_key k s \<or> m (malloc_calls s) \<or> m (Suc (malloc_calls s))"
  proof -
    from that(2) have p: "has_key k ?s1 \<or> m (malloc_calls ?s1)"
      by (rule present)
    then have "has_key k ?s2"
      by (simp add: has_key_set [of k m k v2])
    with uniq2 [OF that(1)] have "entry_count k ?s2 = 1"
      by (simp add: entry_count_unique)
    moreover from p have "fst (g_private_get k ?s2) = v2"
      by (simp add: get_after_set)
    ultimately show ?thesis ..
  qed
  from reach step inplace most one show ?thesis
    by blast
qed

theorem keys_stay_unique_witness:
  "keys_unique (run malloc_always [Private_set 1 5, Private_set 2 6, Private_replace 1 7]
     (init_state zero_memory)) \<and>
   keys_unique (g_private_set malloc_always 1 5 (init_state zero_memory)) \<and>
   has_key 1 (g_private_set malloc_always 1 5 (init_state zero_memory)) \<and>
   keys_unique (snd (exec malloc_never (Private_set 1 7)
     (g_private_set malloc_always 1 5 (init_state zero_memory)))) \<and>
   map entry_key (private_list (g_private_set malloc_never 1 7
     (g_private_set malloc_always 1 5 (init_state zero_memory)))) =
   map entry_key (private_list (g_private_set malloc_always 1 5 (init_state zero_memory))) \<and>
   entry_count 1 (g_private_set malloc_never 1 8 (g_private_set malloc_never 1 7
     (g_private_set malloc_always 1 5 (init_state zero_memory)))) = 1 \<and>
   fst (g_private_get 1 (g_private_set malloc_never 1 8 (g_private_set malloc_never 1 7
     (g_private_set malloc_always 1 5 (init_state zero_memory))))) = 8"
proof -
  have r: "keys_unique (run malloc_always [Private_set 1 5, Private_set 2 6, Private_replace 1 7]
     (init_state zero_memory))"
    using keys_stay_unique [where m = malloc_always and mem = zero_memory
      and cs = "[Private_set 1 5, Private_set 2 6, Private_replace 1 7]"]
    by blast
  have u: "keys_unique (g_private_set malloc_always 1 5 (init_state zero_memory))"
    by (simp add: eval_defs)
  have h: "has_key 1 (g_private_set malloc_always 1 5 (init_state zero_memory))"
    by (simp add: eval_defs)
  from r u h
    keys_stay_unique [where m = malloc_never
      and s = "g_private_set malloc_always 1 5 (init_state zero_memory)"
      and c = "Private_set 1 7" and k = 1 and v = 7 and ?v1.0 = 7 and ?v2.0 = 8]
  show ?thesis
    by blast
qed

text \<open>
  Without that condition there is no node for the key: in the initial state, with both
  calls to \<open>malloc\<close> returning the null pointer, setting key 1 to 5 and then to 7 leaves
  the list empty, and key 1 does not read as 7.
\<close>

theorem keys_stay_unique_counterexample:
  "entry_count 1 (g_private_set malloc_never 1 7
     (g_private_set malloc_never 1 5 (init_state zero_memory))) \<noteq> 1 \<and>
   fst (g_private_get 1 (g_private_set malloc_never 1 7
     (g_private_set malloc_never 1 5 (init_state zero_memory)))) \<noteq> 7"
  by (simp add: eval_defs)

text \<open>
  C3. A key that no call of \<open>g_private_set\<close> or \<open>g_private_replace\<close> has been given
  reads as the null pointer: after any sequence of calls from the initial state none of
  which sets the key, and in the initial state itself, for every key.
\<close>

theorem get_never_set:
  "((\<forall>c \<in> set cs. \<not> sets_key k c) \<longrightarrow>
      fst (g_private_get k (run m cs (init_state mem))) = NULL) \<and>
   fst (g_private_get k (init_state mem)) = NULL"
proof -
  have "\<not> has_key k (run m cs (init_state mem))" if "\<forall>c \<in> set cs. \<not> sets_key k c"
    using init_no_key that by (rule run_absent)
  then show ?thesis
    by (simp add: get_absent init_no_key)
qed

theorem get_never_set_witness:
  "\<not> sets_key 3 (Private_set 1 5) \<and> \<not> sets_key 3 (Private_replace 2 6) \<and>
   \<not> sets_key 3 (Private_get 3) \<and>
   fst (g_private_get 3 (run malloc_always [Private_set 1 5, Private_replace 2 6, Private_get 3]
     (init_state zero_memory))) = NULL \<and>
   fst (g_private_get 3 (init_state zero_memory)) = NULL"
  using get_never_set [of "[Private_set 1 5, Private_replace 2 6, Private_get 3]" 3
      malloc_always zero_memory]
  by simp

text \<open>
  C4. When the key is absent and \<open>malloc\<close> returns the null pointer, \<open>g_private_set\<close>
  changes nothing but the count of calls to \<open>malloc\<close>: the list and the caller's memory
  are as before, and the call returns nothing (the function is \<open>void\<close>). When the key is
  present, \<open>malloc\<close> is not called, the outcome does not depend on the allocator, and the
  value is stored: the key reads back as the value given.
\<close>

theorem set_allocation_failure:
  "(\<not> has_key k s \<and> \<not> m (malloc_calls s) \<longrightarrow>
      g_private_set m k v s = s\<lparr>malloc_calls := Suc (malloc_calls s)\<rparr> \<and>
      private_list (g_private_set m k v s) = private_list s \<and>
      memory (g_private_set m k v s) = memory s \<and>
      exec m (Private_set k v) s = (Void, g_private_set m k v s)) \<and>
   (has_key k s \<longrightarrow>
      malloc_calls (g_private_set m k v s) = malloc_calls s \<and>
      g_private_set m k v s = g_private_set m' k v s \<and>
      has_key k (g_private_set m k v s) \<and>
      fst (g_private_get k (g_private_set m k v s)) = v)"
proof -
  have absent: "g_private_set m k v s = s\<lparr>malloc_calls := Suc (malloc_calls s)\<rparr>"
    if "\<not> has_key k s" and "\<not> m (malloc_calls s)"
    using that by (simp add: set_absent)
  have same: "g_private_set m k v s = g_private_set m' k v s" if "has_key k s"
  proof -
    from that obtain l where l: "g_private_set_loop (private_list s) k v = Some l"
      by (rule set_present)
    then show ?thesis
      by (simp add: g_private_set_def)
  qed
  have ret: "exec m (Private_set k v) s = (Void, g_private_set m k v s)"
    by (simp add: void_def)
  from absent same ret show ?thesis
    by (auto simp: set_malloc_calls has_key_set get_after_set)
qed

theorem set_allocation_failure_witness:
  "\<not> has_key 2 (g_private_set malloc_always 1 5 (init_state zero_memory)) \<and>
   \<not> malloc_never (malloc_calls (g_private_set malloc_always 1 5 (init_state zero_memory))) \<and>
   private_list (g_private_set malloc_never 2 6
     (g_private_set malloc_always 1 5 (init_state zero_memory))) =
   private_list (g_private_set malloc_always 1 5 (init_state zero_memory)) \<and>
   exec malloc_never (Private_set 2 6)
     (g_private_set malloc_always 1 5 (init_state zero_memory)) =
   (Void, g_private_set malloc_never 2 6
     (g_private_set malloc_always 1 5 (init_state zero_memory))) \<and>
   has_key 1 (g_private_set malloc_always 1 5 (init_state zero_memory)) \<and>
   malloc_calls (g_private_set malloc_never 1 7
     (g_private_set malloc_always 1 5 (init_state zero_memory))) =
   malloc_calls (g_private_set malloc_always 1 5 (init_state zero_memory)) \<and>
   fst (g_private_get 1 (g_private_set malloc_never 1 7
     (g_private_set malloc_always 1 5 (init_state zero_memory)))) = 7"
proof -
  have n: "\<not> has_key 2 (g_private_set malloc_always 1 5 (init_state zero_memory))"
    by (simp add: eval_defs)
  have f: "\<not> malloc_never (malloc_calls (g_private_set malloc_always 1 5 (init_state zero_memory)))"
    by (simp add: malloc_never_def)
  have h: "has_key 1 (g_private_set malloc_always 1 5 (init_state zero_memory))"
    by (simp add: eval_defs)
  from n f h
    set_allocation_failure [where m = malloc_never and m' = malloc_always and k = 2 and v = 6
      and s = "g_private_set malloc_always 1 5 (init_state zero_memory)"]
    set_allocation_failure [where m = malloc_never and m' = malloc_always and k = 1 and v = 7
      and s = "g_private_set malloc_always 1 5 (init_state zero_memory)"]
  show ?thesis
    by blast
qed

text \<open>
  C5. \<open>g_private_replace\<close> is \<open>g_private_set\<close>: the two functions are equal, and a call
  of either returns the same (nothing) and leaves the same state.
\<close>

theorem replace_is_set:
  "g_private_replace = g_private_set \<and>
   exec m (Private_replace k v) s = exec m (Private_set k v) s"
proof -
  have "g_private_replace = g_private_set"
    by (intro ext) (simp add: g_private_replace_def)
  then show ?thesis
    by simp
qed

theorem replace_is_set_witness:
  "exec malloc_always (Private_replace 1 5) (init_state zero_memory) =
   exec malloc_always (Private_set 1 5) (init_state zero_memory) \<and>
   private_list (g_private_replace malloc_always 1 5 (init_state zero_memory)) =
     [\<lparr>entry_key = 1, entry_value = 5\<rparr>] \<and>
   private_list (g_private_replace malloc_never 1 7
     (g_private_replace malloc_always 1 5 (init_state zero_memory))) =
     [\<lparr>entry_key = 1, entry_value = 7\<rparr>]"
  using replace_is_set [of malloc_always 1 5 "init_state zero_memory"]
  by (simp add: eval_defs)

text \<open>
  C6. The value \<open>g_private_get\<close> returns for a missing key is the null pointer, so a key
  bound to the null pointer reads as a key that was never set: after
  \<open>g_private_set\<close> of a key to \<open>NULL\<close> the key reads as \<open>NULL\<close>, which is what every
  key reads as in the initial state and what any key absent from the list reads as.
\<close>

theorem null_value_reads_as_absent:
  "fst (g_private_get k (g_private_set m k NULL s)) = NULL \<and>
   fst (g_private_get k (init_state mem)) = NULL \<and>
   (\<not> has_key k' s' \<longrightarrow>
      fst (g_private_get k (g_private_set m k NULL s)) = fst (g_private_get k' s'))"
  by (simp add: get_after_set get_absent init_no_key)

theorem null_value_reads_as_absent_witness:
  "fst (g_private_get 1 (g_private_set malloc_always 1 NULL (init_state zero_memory))) = NULL \<and>
   has_key 1 (g_private_set malloc_always 1 NULL (init_state zero_memory)) \<and>
   \<not> has_key 2 (g_private_set malloc_always 1 NULL (init_state zero_memory)) \<and>
   fst (g_private_get 1 (g_private_set malloc_always 1 NULL (init_state zero_memory))) =
   fst (g_private_get 2 (g_private_set malloc_always 1 NULL (init_state zero_memory)))"
proof -
  have h: "has_key 1 (g_private_set malloc_always 1 NULL (init_state zero_memory))"
    by (simp add: eval_defs)
  have n: "\<not> has_key 2 (g_private_set malloc_always 1 NULL (init_state zero_memory))"
    by (simp add: eval_defs)
  from h n
    null_value_reads_as_absent [where k = 1 and m = malloc_always and mem = zero_memory
      and s = "init_state zero_memory" and k' = 2
      and s' = "g_private_set malloc_always 1 NULL (init_state zero_memory)"]
  show ?thesis
    by blast
qed

text \<open>
  C10. \<open>g_private_get\<close> has no side effect and never fails: for every key and every state
  it returns, leaves the whole state as it was, and what it returns is the null pointer
  or a value stored in the list.
\<close>

theorem g_private_get_pure:
  "snd (g_private_get k s) = s \<and>
   (fst (g_private_get k s) = NULL \<or>
    fst (g_private_get k s) \<in> set (map entry_value (private_list s)))"
proof -
  have "g_private_get_loop l k = NULL \<or> g_private_get_loop l k \<in> set (map entry_value l)" for l
    by (induction l) auto
  then show ?thesis
    by (simp add: g_private_get_def)
qed

theorem g_private_get_pure_witness:
  "snd (g_private_get 1 (g_private_set malloc_always 1 5 (init_state zero_memory))) =
     g_private_set malloc_always 1 5 (init_state zero_memory) \<and>
   fst (g_private_get 1 (g_private_set malloc_always 1 5 (init_state zero_memory))) = 5 \<and>
   fst (g_private_get 2 (g_private_set malloc_always 1 5 (init_state zero_memory))) = NULL"
  using g_private_get_pure [of 1 "g_private_set malloc_always 1 5 (init_state zero_memory)"]
  by (simp add: eval_defs)

subsection \<open>The stubs\<close>

text \<open>
  C7. \<open>g_system_thread_new\<close> returns the null pointer for every combination of arguments
  and leaves the whole state as it was, so the cell its \<open>error\<close> argument points to is
  not written.
\<close>

theorem system_thread_new_null:
  "g_system_thread_new proxy stack_size name func data error s = (NULL, s) \<and>
   memory (snd (g_system_thread_new proxy stack_size name func data error s)) error =
     memory s error \<and>
   exec m (System_thread_new proxy stack_size name func data error) s = (Pointer NULL, s)"
  by (simp add: g_system_thread_new_def returning_def)

theorem system_thread_new_null_witness:
  "g_system_thread_new 16 65536 32 48 64 80 (init_state zero_memory) =
     (NULL, init_state zero_memory) \<and>
   memory (snd (g_system_thread_new 16 65536 32 48 64 80 (init_state zero_memory))) 80 = 0"
  using system_thread_new_null [of 16 65536 32 48 64 80 "init_state zero_memory"]
  by (simp add: init_state_def zero_memory_def)

text \<open>
  C8. \<open>g_mutex_trylock\<close>, \<open>g_rw_lock_writer_trylock\<close>, \<open>g_rw_lock_reader_trylock\<close>,
  \<open>g_rec_mutex_trylock\<close> and \<open>g_cond_wait_until\<close> return \<open>TRUE\<close> for all arguments
  in every state, and in every sequence of calls each call of one of them returns
  \<open>TRUE\<close>.
\<close>

theorem trylock_always_true:
  "fst (g_mutex_trylock mutex s) = TRUE \<and>
   fst (g_rw_lock_writer_trylock rw_lock s) = TRUE \<and>
   fst (g_rw_lock_reader_trylock rw_lock s) = TRUE \<and>
   fst (g_rec_mutex_trylock rec_mutex s) = TRUE \<and>
   fst (g_cond_wait_until cond mutex end_time s) = TRUE \<and>
   TRUE \<noteq> FALSE \<and>
   (\<forall>i < length cs. is_trylock (cs ! i) \<longrightarrow> returns m cs s ! i = Bool TRUE)"
  by (simp add: g_mutex_trylock_def g_rw_lock_writer_trylock_def g_rw_lock_reader_trylock_def
      g_rec_mutex_trylock_def g_cond_wait_until_def TRUE_def FALSE_def returns_nth exec_trylock)

theorem trylock_always_true_witness:
  "fst (g_mutex_trylock 8 (init_state zero_memory)) = TRUE \<and>
   fst (g_cond_wait_until 8 8 (- 1) (init_state zero_memory)) = TRUE \<and>
   TRUE = 1 \<and>
   is_trylock (Rec_mutex_trylock 8) \<and>
   returns malloc_never
     [Mutex_lock 8, Mutex_trylock 8, Mutex_lock 8, Rec_mutex_trylock 8, Rw_lock_writer_lock 8,
      Rw_lock_reader_trylock 8, Private_set 1 5, Cond_wait_until 8 16 0]
     (init_state zero_memory) ! 3 = Bool TRUE"
proof -
  let ?cs = "[Mutex_lock 8, Mutex_trylock 8, Mutex_lock 8, Rec_mutex_trylock 8,
    Rw_lock_writer_lock 8, Rw_lock_reader_trylock 8, Private_set 1 5, Cond_wait_until 8 16 0]"
  note a = trylock_always_true [where mutex = 8 and cond = 8 and end_time = "- 1"
      and s = "init_state zero_memory" and m = malloc_never and cs = ?cs]
  then have "\<forall>i < length ?cs. is_trylock (?cs ! i) \<longrightarrow>
      returns malloc_never ?cs (init_state zero_memory) ! i = Bool TRUE"
    by blast
  then have imp: "3 < length ?cs \<longrightarrow> is_trylock (?cs ! 3) \<longrightarrow>
      returns malloc_never ?cs (init_state zero_memory) ! 3 = Bool TRUE"
    by (rule spec)
  have l: "3 < length ?cs"
    by simp
  have t: "is_trylock (Rec_mutex_trylock 8)"
    by simp
  then have "is_trylock (?cs ! 3)"
    by simp
  with imp l have r: "returns malloc_never ?cs (init_state zero_memory) ! 3 = Bool TRUE"
    by blast
  have "TRUE = 1"
    by (simp add: TRUE_def)
  with a r t show ?thesis
    by blast
qed

text \<open>
  C9. \<open>g_thread_pool_get_max_unused_threads\<close> and \<open>g_thread_pool_get_num_unused_threads\<close>
  return 0 in every state: after any calls of \<open>g_thread_pool_set_max_unused_threads\<close>, and
  at the end of any sequence of calls.
\<close>

theorem pool_queries_zero:
  "fst (g_thread_pool_get_max_unused_threads s) = 0 \<and>
   fst (g_thread_pool_get_num_unused_threads s) = 0 \<and>
   fst (g_thread_pool_get_max_unused_threads
     (run m (map Thread_pool_set_max_unused_threads ns) s)) = 0 \<and>
   fst (g_thread_pool_get_num_unused_threads
     (run m (map Thread_pool_set_max_unused_threads ns) s)) = 0 \<and>
   returns m (cs @ [Thread_pool_get_max_unused_threads, Thread_pool_get_num_unused_threads]) s =
     returns m cs s @ [Uint 0, Uint 0]"
  by (simp add: g_thread_pool_get_max_unused_threads_def g_thread_pool_get_num_unused_threads_def
      returns_append returning_def)

theorem pool_queries_zero_witness:
  "fst (g_thread_pool_get_max_unused_threads
     (run malloc_always (map Thread_pool_set_max_unused_threads [4, 0, - 1])
       (init_state zero_memory))) = 0 \<and>
   fst (g_thread_pool_get_num_unused_threads
     (run malloc_always (map Thread_pool_set_max_unused_threads [4, 0, - 1])
       (init_state zero_memory))) = 0 \<and>
   returns malloc_always [Thread_pool_set_max_unused_threads 4,
     Thread_pool_get_max_unused_threads, Thread_pool_get_num_unused_threads]
     (init_state zero_memory) = [Void, Uint 0, Uint 0]"
  using pool_queries_zero [of "init_state zero_memory" malloc_always "[4, 0, - 1]"
      "[Thread_pool_set_max_unused_threads 4]"]
  by (simp add: void_def)

end
